theory Spec2Isabelle
  imports Main
begin

section \<open>JavaScript values used by \<open>api/cases.js\<close>\<close>

text \<open>
  Cells of a sheet and fields of a JSON body are scalar JavaScript values. A number is
  represented by its integer value; the handlers only test numbers for truthiness, pass
  them through unchanged, or print them with \<open>String\<close>. The integers a JavaScript number
  holds exactly, and prints in plain decimal digits, are those of magnitude up to
  \<open>2^53\<close> (\<open>plain_number\<close> below); \<open>to_String\<close> follows JavaScript on these only, and
  a statement about a printed number carries that bound.
  A string is a list of characters with codes up to 255.
\<close>

datatype jsval = Undefined | Null | Bool bool | Num int | Str string

text \<open>The falsy values are \<open>undefined\<close>, \<open>null\<close>, \<open>false\<close>, \<open>0\<close> and \<open>''\<close>.\<close>

fun truthy :: "jsval \<Rightarrow> bool" where
  "truthy Undefined = False"
| "truthy Null = False"
| "truthy (Bool b) = b"
| "truthy (Num n) = (n \<noteq> 0)"
| "truthy (Str s) = (s \<noteq> [])"

text \<open>\<open>a || b\<close>\<close>

definition js_or :: "jsval \<Rightarrow> jsval \<Rightarrow> jsval" where
  "js_or a b = (if truthy a then a else b)"

text \<open>
  \<open>String.prototype.trim\<close> removes white space and line terminators from both ends:
  TAB, LF, VT, FF, CR, SPACE and (in the range of codes modelled) NO-BREAK SPACE.
\<close>

definition is_ws :: "char \<Rightarrow> bool" where
  "is_ws c = (c \<in> set [CHR 0x09, CHR 0x0A, CHR 0x0B, CHR 0x0C, CHR 0x0D, CHR 0x20, CHR 0xA0])"

definition trim :: "string \<Rightarrow> string" where
  "trim s = rev (dropWhile is_ws (rev (dropWhile is_ws s)))"

fun string_of_nat :: "nat \<Rightarrow> string" where
  "string_of_nat n =
     (if n < 10 then [''0123456789'' ! n]
      else string_of_nat (n div 10) @ [''0123456789'' ! (n mod 10)])"

declare string_of_nat.simps [simp del]

definition string_of_int :: "int \<Rightarrow> string" where
  "string_of_int i = (if i < 0 then ''-'' @ string_of_nat (nat (- i)) else string_of_nat (nat i))"

text \<open>\<open>String(v)\<close>\<close>

fun to_String :: "jsval \<Rightarrow> string" where
  "to_String Undefined = ''undefined''"
| "to_String Null = ''null''"
| "to_String (Bool b) = (if b then ''true'' else ''false'')"
| "to_String (Num n) = string_of_int n"
| "to_String (Str s) = s"

definition plain_number :: "jsval \<Rightarrow> bool" where
  "plain_number v = (case v of Num n \<Rightarrow> \<bar>n\<bar> \<le> 9007199254740992 | _ \<Rightarrow> True)"

text \<open>
  A row of the grid is an array of cells. \<open>row[i]\<close> is \<open>undefined\<close> past the end of
  the array. \<open>row.includes(v)\<close> compares with SameValueZero, which on the values modelled
  here is equality.
\<close>

type_synonym row = "jsval list"

definition index :: "row \<Rightarrow> nat \<Rightarrow> jsval" where
  "index r i = (if i < length r then r ! i else Undefined)"

definition array_includes :: "row \<Rightarrow> jsval \<Rightarrow> bool" where
  "array_includes r v = (v \<in> set r)"

text \<open>
  An object has its own properties and a prototype. An object written \<open>{}\<close> or built
  by \<open>JSON.parse\<close> has the prototype \<open>Object.prototype\<close>; a property whose value is
  \<open>undefined\<close> is still a key of the object.
\<close>

datatype proto = ObjectPrototype | NullPrototype

record jsobj =
  props :: "string \<rightharpoonup> jsval"
  prototype :: proto

definition empty_object :: jsobj where
  "empty_object = \<lparr>props = Map.empty, prototype = ObjectPrototype\<rparr>"

text \<open>
  The properties of \<open>Object.prototype\<close>: the methods below, which are writable data
  properties, and the accessor \<open>__proto__\<close>.
\<close>

definition object_prototype_methods :: "string list" where
  "object_prototype_methods =
     [''constructor'', ''__defineGetter__'', ''__defineSetter__'', ''hasOwnProperty'',
      ''__lookupGetter__'', ''__lookupSetter__'', ''isPrototypeOf'', ''propertyIsEnumerable'',
      ''toString'', ''valueOf'', ''toLocaleString'']"

text \<open>
  \<open>obj[k] = v\<close> for a scalar \<open>v\<close>. An own property is overwritten. Otherwise, when
  \<open>k\<close> is \<open>__proto__\<close> and the prototype is \<open>Object.prototype\<close>, the inherited setter
  runs: it creates no property; it sets the prototype to \<open>null\<close> when \<open>v\<close> is \<open>null\<close>
  and ignores every other scalar. In every other case a new own property is created (an
  inherited method is writable, so it is shadowed).
\<close>

definition obj_set :: "jsobj \<Rightarrow> string \<Rightarrow> jsval \<Rightarrow> jsobj" where
  "obj_set obj k v =
     (if props obj k \<noteq> None then obj\<lparr>props := (props obj)(k \<mapsto> v)\<rparr>
      else if k = ''__proto__'' \<and> prototype obj = ObjectPrototype
      then (if v = Null then obj\<lparr>prototype := NullPrototype\<rparr> else obj)
      else obj\<lparr>props := (props obj)(k \<mapsto> v)\<rparr>)"

text \<open>
  The result of reading \<open>obj[k]\<close>: the value of an own property; otherwise what
  \<open>Object.prototype\<close> gives, when it is the prototype: itself for \<open>__proto__\<close>, a
  built-in function for the name of one of its methods; otherwise \<open>undefined\<close>.
\<close>

datatype jsread = Value jsval | ObjectPrototypeObject | BuiltinFunction string

definition obj_get :: "jsobj \<Rightarrow> string \<Rightarrow> jsread" where
  "obj_get obj k =
     (case props obj k of
        Some v \<Rightarrow> Value v
      | None \<Rightarrow>
         (case prototype obj of
            NullPrototype \<Rightarrow> Value Undefined
          | ObjectPrototype \<Rightarrow>
             if k = ''__proto__'' then ObjectPrototypeObject
             else if k \<in> set object_prototype_methods then BuiltinFunction k
             else Value Undefined))"

text \<open>Objects and functions are truthy. \<open>x || null\<close> for a property read \<open>x\<close>.\<close>

fun read_truthy :: "jsread \<Rightarrow> bool" where
  "read_truthy (Value v) = truthy v"
| "read_truthy ObjectPrototypeObject = True"
| "read_truthy (BuiltinFunction f) = True"

definition or_null :: "jsread \<Rightarrow> jsread" where
  "or_null x = (if read_truthy x then x else Value Null)"

text \<open>
  What \<open>res.json\<close> sends for an object: \<open>JSON.stringify\<close> writes the own properties and
  leaves out those whose value is \<open>undefined\<close>.
\<close>

definition json_props :: "jsobj \<Rightarrow> (string \<rightharpoonup> jsval)" where
  "json_props obj k = (case props obj k of Some Undefined \<Rightarrow> None | v \<Rightarrow> v)"

text \<open>
  An object of a response when it comes back in a request body: \<open>JSON.parse\<close> builds a
  fresh object with the properties that were sent.
\<close>

definition as_received :: "jsobj \<Rightarrow> jsobj" where
  "as_received obj = \<lparr>props = json_props obj, prototype = ObjectPrototype\<rparr>"

text \<open>\<open>xs.map((x, index) => f x index)\<close>, with the index counted from \<open>i\<close>.\<close>

fun map_index :: "('a \<Rightarrow> nat \<Rightarrow> 'b) \<Rightarrow> nat \<Rightarrow> 'a list \<Rightarrow> 'b list" where
  "map_index f i [] = []"
| "map_index f i (x # xs) = f x i # map_index f (Suc i) xs"

section \<open>Configuration and HTTP responses\<close>

definition SPREADSHEET_ID :: string where
  "SPREADSHEET_ID = ''1WrIqNjnY6yy9UTiDY2Q1kbMk6Rx1EOnQLq1HSAOkjr8''"

definition SHEET_NAME :: string where
  "SHEET_NAME = ''BD''"

text \<open>
  The three shapes of body the handlers send: \<open>{headers, cases}\<close>, \<open>{message}\<close> and
  \<open>{message, error}\<close>. A body is the value handed to \<open>res.json\<close>, as the handler built
  it. \<open>res.json\<close> without \<open>res.status\<close> answers with status 200.
\<close>

datatype body =
    CasesBody (body_headers: "string list") (body_cases: "jsobj list")
  | MessageBody (message: string)
  | ErrorBody (message: string) (error: string)

datatype response = Response (status: nat) (body: body)

text \<open>
  The calls made to the spreadsheet service, each with its spreadsheet id and range; the
  write calls carry \<open>valueInputOption\<close> and \<open>resource.values\<close> (rows of property reads
  for \<open>update\<close>, rows of scalars for \<open>append\<close>). A service is a function
  from a call to its outcome: \<open>None\<close> when the promise resolves, \<open>Some m\<close> when it
  rejects with an error whose message is \<open>m\<close>.
\<close>

datatype call =
    Clear string string
  | Update string string string "jsread list list"
  | Append string string string "row list"

type_synonym service = "call \<Rightarrow> string option"

section \<open>GET /api/cases\<close>

text \<open>
  The condition of the header scan,
  \<open>row && row.includes('EXPEDIENTE') && row.includes('NOMBRES') && row.includes('RUT')\<close>.
  A row is an array, and every array is truthy, so the guard \<open>row &&\<close> holds.
\<close>

definition is_header_row :: "row \<Rightarrow> bool" where
  "is_header_row r =
     (array_includes r (Str ''EXPEDIENTE'') \<and> array_includes r (Str ''NOMBRES'')
      \<and> array_includes r (Str ''RUT''))"

text \<open>
  The loop \<open>for (let i = 0; i < Math.min(rows.length, 10); i++)\<close>, entered at \<open>i\<close>;
  its value is \<open>headerRowIndex\<close> after the loop, \<open>-1\<close> when no row matched.
\<close>

function scan_header :: "row list \<Rightarrow> nat \<Rightarrow> int" where
  "scan_header rows i =
     (if i < min (length rows) 10
      then (if is_header_row (rows ! i) then int i else scan_header rows (Suc i))
      else - 1)"
  by pat_completeness auto
termination
  by (relation "measure (\<lambda>(rows, i). min (length rows) 10 - i)") auto

declare scan_header.simps [simp del]

definition headerRowIndex :: "row list \<Rightarrow> int" where
  "headerRowIndex rows = scan_header rows 0"

text \<open>\<open>rows[headerRowIndex].map(h => h ? String(h).trim() : '')\<close>\<close>

definition header_of_cell :: "jsval \<Rightarrow> string" where
  "header_of_cell h = (if truthy h then trim (to_String h) else '''')"

definition build_headers :: "row \<Rightarrow> string list" where
  "build_headers r = map header_of_cell r"

text \<open>
  \<open>headers.forEach((header, i) => { caseObject[header] = row[i]; })\<close>, entered at
  column \<open>i\<close> with the object built so far.
\<close>

fun assign_fields :: "string list \<Rightarrow> nat \<Rightarrow> row \<Rightarrow> jsobj \<Rightarrow> jsobj" where
  "assign_fields [] i r obj = obj"
| "assign_fields (header # hs) i r obj =
     assign_fields hs (Suc i) r (obj_set obj header (index r i))"

text \<open>
  The callback of \<open>rows.slice(dataStartIndex).map((row, index) => ...)\<close>: the object
  starts as \<open>{}\<close>, receives the headers and then \<open>rowIndex\<close>.
\<close>

definition caseObject :: "string list \<Rightarrow> nat \<Rightarrow> row \<Rightarrow> nat \<Rightarrow> jsobj" where
  "caseObject hs dataStartIndex r idx =
     obj_set (assign_fields hs 0 r empty_object) ''rowIndex''
       (Num (int (dataStartIndex + idx + 1)))"

definition casesData :: "string list \<Rightarrow> nat \<Rightarrow> row list \<Rightarrow> jsobj list" where
  "casesData hs dataStartIndex rows =
     map_index (caseObject hs dataStartIndex) 0 (drop dataStartIndex rows)"

text \<open>
  The handler. Its argument is the outcome of \<open>sheets.spreadsheets.values.get\<close>:
  \<open>Inl m\<close> when the call throws an error with message \<open>m\<close>, \<open>Inr v\<close> when it
  returns, \<open>v\<close> being \<open>response.data.values\<close> (\<open>None\<close> when the field is absent).
\<close>

definition get_cases :: "string + row list option \<Rightarrow> response" where
  "get_cases outcome =
     (case outcome of
        Inl m \<Rightarrow> Response 500 (ErrorBody ''Error al conectar con Google Sheets.'' m)
      | Inr None \<Rightarrow> Response 200 (CasesBody [] [])
      | Inr (Some rows) \<Rightarrow>
          if length rows = 0 then Response 200 (CasesBody [] [])
          else if headerRowIndex rows = - 1 then Response 200 (CasesBody [] [])
          else
            let h = nat (headerRowIndex rows);
                hs = build_headers (rows ! h);
                dataStartIndex = h + 1
            in Response 200 (CasesBody hs (casesData hs dataStartIndex rows)))"

section \<open>PUT /api/cases\<close>

text \<open>
  A field of the request body \<open>{headers, cases}\<close> is a scalar (\<open>undefined\<close> when the
  field is absent), an object that is not an array, or an array. The elements of
  \<open>headers\<close> are strings; an element of \<open>cases\<close> is an object with scalar values or
  \<open>null\<close> (\<open>None\<close>). Objects and arrays are truthy.
\<close>

datatype 'a field = Scalar jsval | PlainObject | Array "'a list"

fun field_truthy :: "'a field \<Rightarrow> bool" where
  "field_truthy (Scalar v) = truthy v"
| "field_truthy PlainObject = True"
| "field_truthy (Array xs) = True"

record put_body =
  headers :: "string field"
  cases :: "jsobj option field"

text \<open>
  \<open>headers.map(header => caso[header] || null)\<close> for an array \<open>headers\<close>: reading a
  property of \<open>null\<close> throws a TypeError (here with V8's message); with no header
  nothing is read.
\<close>

fun serialize_row :: "string list \<Rightarrow> jsobj option \<Rightarrow> string + jsread list" where
  "serialize_row [] caso = Inr []"
| "serialize_row (header # hs) None =
     Inl (''Cannot read properties of null (reading '' @ [CHR 0x27] @ header @ [CHR 0x27] @ '')'')"
| "serialize_row (header # hs) (Some obj) =
     Inr (map (\<lambda>header. or_null (obj_get obj header)) (header # hs))"

text \<open>
  \<open>cases.map(caso => headers.map(...))\<close> for arrays \<open>cases\<close> and \<open>headers\<close>: the rows in
  the order of the cases, or the first error thrown.
\<close>

fun serialize :: "string list \<Rightarrow> jsobj option list \<Rightarrow> string + jsread list list" where
  "serialize hs [] = Inr []"
| "serialize hs (caso # cs) =
     (case serialize_row hs caso of
        Inl e \<Rightarrow> Inl e
      | Inr r \<Rightarrow> (case serialize hs cs of Inl e \<Rightarrow> Inl e | Inr rs \<Rightarrow> Inr (r # rs)))"

text \<open>
  \<open>const values = cases.map(caso => headers.map(header => caso[header] || null))\<close> for
  truthy fields: only an array has \<open>map\<close>, and \<open>headers.map\<close> is evaluated once for
  each case, so not at all when there is no case.
\<close>

definition values_of :: "string field \<Rightarrow> jsobj option field \<Rightarrow> string + jsread list list" where
  "values_of hf cf =
     (case cf of
        Array cs \<Rightarrow>
          (if cs = [] then Inr []
           else (case hf of
                   Array hs \<Rightarrow> serialize hs cs
                 | _ \<Rightarrow> Inl ''headers.map is not a function''))
      | _ \<Rightarrow> Inl ''cases.map is not a function'')"

definition dataStartRow :: int where
  "dataStartRow = 4"

definition clear_call :: call where
  "clear_call = Clear SPREADSHEET_ID (SHEET_NAME @ ''!A'' @ string_of_int dataStartRow @ '':ZZ'')"

definition update_call :: "jsread list list \<Rightarrow> call" where
  "update_call vs =
     Update SPREADSHEET_ID (SHEET_NAME @ ''!A'' @ string_of_int dataStartRow) ''USER_ENTERED'' vs"

definition put_missing :: string where
  "put_missing = ''Faltan headers o cases en la petici'' @ [CHR 0xF3] @ ''n.''"

definition put_success :: string where
  "put_success =
     ''Hoja de c'' @ [CHR 0xE1] @ ''lculo actualizada con '' @ [CHR 0xE9] @ ''xito.''"

definition put_failure :: "string \<Rightarrow> response" where
  "put_failure m = Response 500 (ErrorBody ''Error al escribir en Google Sheets.'' m)"

text \<open>
  The handler returns the calls it made to the spreadsheet service, in order, and its
  response. The rows are built before the first call; an error thrown while building them
  and a call that rejects both take the handler to its \<open>catch\<close> block.
\<close>

definition put_cases :: "service \<Rightarrow> put_body \<Rightarrow> call list \<times> response" where
  "put_cases sheets b =
     (if \<not> field_truthy (headers b) \<or> \<not> field_truthy (cases b)
      then ([], Response 400 (MessageBody put_missing))
      else
        (case values_of (headers b) (cases b) of
           Inl e \<Rightarrow> ([], put_failure e)
         | Inr vs \<Rightarrow>
            (case sheets clear_call of
               Some m \<Rightarrow> ([clear_call], put_failure m)
             | None \<Rightarrow>
                if length vs > 0
                then (case sheets (update_call vs) of
                        Some m \<Rightarrow> ([clear_call, update_call vs], put_failure m)
                      | None \<Rightarrow>
                         ([clear_call, update_call vs], Response 200 (MessageBody put_success)))
                else ([clear_call], Response 200 (MessageBody put_success)))))"

section \<open>POST /api/location\<close>

text \<open>
  The request body \<open>{address, location: {lat, lon}, caseId}\<close>. A field that is absent
  reads as \<open>undefined\<close>; \<open>location\<close> is an object or absent (\<open>None\<close>).
\<close>

record coords =
  lat :: jsval
  lon :: jsval

record location_body =
  address :: jsval
  location :: "coords option"
  caseId :: jsval

text \<open>\<open>s.split(sep)\<close> for a separator of one character; the result is never empty.\<close>

fun split :: "string \<Rightarrow> char \<Rightarrow> string list" where
  "split [] sep = [[]]"
| "split (c # s) sep =
     (if c = sep then [] # split s sep
      else (case split s sep of [] \<Rightarrow> [[c]] | x # xs \<Rightarrow> (c # x) # xs))"

text \<open>\<open>s.includes(p)\<close> on strings: \<open>p\<close> occurs in \<open>s\<close>.\<close>

fun str_includes :: "string \<Rightarrow> string \<Rightarrow> bool" where
  "str_includes [] p = (p = [])"
| "str_includes (c # s) p = (take (length p) (c # s) = p \<or> str_includes s p)"

definition location_incomplete :: response where
  "location_incomplete =
     Response 400 (MessageBody (''Datos de ubicaci'' @ [CHR 0xF3] @ ''n incompletos.''))"

definition location_saved :: "string \<Rightarrow> string" where
  "location_saved a =
     ''Ubicaci'' @ [CHR 0xF3] @ ''n para '' @ [CHR 0x22] @ split a (CHR '','') ! 0 @ [CHR 0x22]
       @ '' guardada correctamente.''"

text \<open>The \<open>catch\<close> block: the message is chosen by what the error's message contains.\<close>

definition location_failure :: "string \<Rightarrow> response" where
  "location_failure m =
     Response 500 (ErrorBody
       (if str_includes m ''PERMISSION_DENIED''
        then ''Permiso denegado. Verifica que el email del servicio tenga acceso al Sheet.''
        else if str_includes m ''SHEET_NOT_FOUND''
        then ''No se encontr'' @ [CHR 0xF3] @ '' la hoja '' @ [CHR 0x22] @ ''Ubicaciones''
               @ [CHR 0x22] @ ''. Crea una hoja con ese nombre.''
        else ''Error al guardar la ubicaci'' @ [CHR 0xF3] @ ''n en Google Sheets.'') m)"

definition append_call :: "row list \<Rightarrow> call" where
  "append_call vs = Append SPREADSHEET_ID (''Ubicaciones'' @ ''!A:E'') ''USER_ENTERED'' vs"

text \<open>
  The handler, given the service, the value of \<open>new Date().toISOString()\<close> at the time
  of the request and the body. After a successful append the message is built with
  \<open>address.split(',')[0]\<close>; an address that is not a string has no \<open>split\<close>, the
  TypeError is caught by the same \<open>catch\<close> block.
\<close>

definition post_location :: "service \<Rightarrow> string \<Rightarrow> location_body \<Rightarrow> call list \<times> response" where
  "post_location sheets now b =
     (if \<not> truthy (address b) then ([], location_incomplete)
      else case location b of
        None \<Rightarrow> ([], location_incomplete)
      | Some loc \<Rightarrow>
         if \<not> truthy (lat loc) \<or> \<not> truthy (lon loc) then ([], location_incomplete)
         else
           let vs = [[Str now, address b, lat loc, lon loc, js_or (caseId b) (Str ''N/A'')]] in
           (case sheets (append_call vs) of
              Some m \<Rightarrow> ([append_call vs], location_failure m)
            | None \<Rightarrow>
               (case address b of
                  Str a \<Rightarrow> ([append_call vs], Response 200 (MessageBody (location_saved a)))
                | _ \<Rightarrow> ([append_call vs], location_failure ''address.split is not a function''))))"

section \<open>Sample inputs\<close>

definition sample_grid :: "row list" where
  "sample_grid =
     [[Str ''Listado''],
      [Str ''EXPEDIENTE'', Str '' NOMBRES '', Str ''NOMBRES'', Str ''RUT''],
      [Str ''12-2020'', Str ''x'', Str ''Ana Soto'', Str ''1-9'', Str ''sobra''],
      [Str ''13-2020'']]"

definition mixed_grid :: "row list" where
  "mixed_grid =
     [[Str ''EXPEDIENTE'', Str ''NOMBRES'', Str ''RUT'', Num 5, Null, Str '' Fecha ''],
      [Str ''12-2020'', Str ''Ana Soto'', Str '''', Num 0, Str ''a'', Str ''hoy'', Str ''sobra''],
      [Str ''13-2020'']]"


definition repeated_header_grid :: "row list" where
  "repeated_header_grid =
     [[Str ''EXPEDIENTE'', Str '''', Str ''NOMBRES'', Str '''', Str ''RUT''],
      [Str ''12-2020'', Str ''x'', Str ''Ana Soto'', Str ''y'', Str ''1-9'', Str ''sobra'']]"

definition special_header_grid :: "row list" where
  "special_header_grid =
     [[Str ''EXPEDIENTE'', Str ''NOMBRES'', Str ''RUT'', Str ''rowIndex'', Str ''__proto__'',
       Str ''Monto''],
      [Str ''a'', Str ''b'', Str ''c'', Str ''d'', Str ''e'', Num 0]]"

definition no_failure :: service where
  "no_failure c = None"

definition empty_body :: put_body where
  "empty_body = \<lparr>headers = Scalar Undefined, cases = Scalar Undefined\<rparr>"

definition one_case :: jsobj where
  "one_case =
     \<lparr>props = [''RUT'' \<mapsto> Str ''1-9'', ''rowIndex'' \<mapsto> Num 5], prototype = ObjectPrototype\<rparr>"

definition one_case_body :: put_body where
  "one_case_body =
     \<lparr>headers = Array [''RUT'', ''NOMBRES'', ''constructor''], cases = Array [Some one_case]\<rparr>"

definition null_case_body :: put_body where
  "null_case_body = \<lparr>headers = Array [''a''], cases = Array [None]\<rparr>"


definition spec_example_body :: location_body where
  "spec_example_body =
     \<lparr>address = Str ''123 Main St, City'', location = Some \<lparr>lat = Num 1, lon = Num 2\<rparr>,
      caseId = Undefined\<rparr>"

definition missing_lat_body :: location_body where
  "missing_lat_body =
     \<lparr>address = Str ''123 Main St, City'', location = Some \<lparr>lat = Undefined, lon = Num 2\<rparr>,
      caseId = Str ''12-2020''\<rparr>"

section \<open>The header scan\<close>

lemma scan_header_found:
  "scan_header rows i = int h \<longleftrightarrow>
     i \<le> h \<and> h < length rows \<and> h < 10 \<and> is_header_row (rows ! h)
     \<and> (\<forall>j. i \<le> j \<and> j < h \<longrightarrow> \<not> is_header_row (rows ! j))"
proof (induction rows i rule: scan_header.induct)
  case (1 rows i)
  show ?case
  proof (cases "i < min (length rows) 10")
    case False
    then show ?thesis by (subst scan_header.simps) auto
  next
    case inrange: True
    show ?thesis
    proof (cases "is_header_row (rows ! i)")
      case True
      have "scan_header rows i = int i"
        using inrange True by (subst scan_header.simps) simp
      moreover have "i = h" if "i \<le> h" "\<forall>j. i \<le> j \<and> j < h \<longrightarrow> \<not> is_header_row (rows ! j)"
        using that True by (cases "i < h") auto
      ultimately show ?thesis using inrange True by auto
    next
      case False
      have "scan_header rows i = scan_header rows (Suc i)"
        using inrange False by (subst scan_header.simps) simp
      moreover have "Suc i \<le> j \<longleftrightarrow> i \<le> j \<and> j \<noteq> i" for j by auto
      ultimately show ?thesis
        using 1[OF inrange False] False
        by (metis Suc_leI le_neq_implies_less less_or_eq_imp_le not_less_eq_eq)
    qed
  qed
qed

lemma scan_header_range: "scan_header rows i = - 1 \<or> (\<exists>h. scan_header rows i = int h)"
proof (induction rows i rule: scan_header.induct)
  case (1 rows i)
  show ?case
  proof (cases "i < min (length rows) 10")
    case False
    then have "scan_header rows i = - 1" by (subst scan_header.simps) auto
    then show ?thesis by simp
  next
    case inrange: True
    show ?thesis
    proof (cases "is_header_row (rows ! i)")
      case True
      then have "scan_header rows i = int i"
        using inrange by (subst scan_header.simps) auto
      then show ?thesis by blast
    next
      case False
      then have "scan_header rows i = scan_header rows (Suc i)"
        using inrange by (subst scan_header.simps) auto
      then show ?thesis using 1[OF inrange False] by simp
    qed
  qed
qed

lemma scan_header_none:
  "scan_header rows i = - 1 \<longleftrightarrow>
     (\<forall>j. i \<le> j \<and> j < length rows \<and> j < 10 \<longrightarrow> \<not> is_header_row (rows ! j))"
proof (induction rows i rule: scan_header.induct)
  case (1 rows i)
  show ?case
  proof (cases "i < min (length rows) 10")
    case False
    then have "scan_header rows i = - 1" by (subst scan_header.simps) auto
    then show ?thesis using False by auto
  next
    case inrange: True
    show ?thesis
    proof (cases "is_header_row (rows ! i)")
      case True
      then have "scan_header rows i = int i"
        using inrange by (subst scan_header.simps) auto
      then show ?thesis using True inrange by auto
    next
      case False
      then have "scan_header rows i = scan_header rows (Suc i)"
        using inrange by (subst scan_header.simps) auto
      moreover have "i \<le> j \<longleftrightarrow> j = i \<or> Suc i \<le> j" for j by auto
      ultimately show ?thesis using 1[OF inrange False] False by auto
    qed
  qed
qed

section \<open>Facts about the projection\<close>

lemma length_map_index: "length (map_index f i xs) = length xs"
  by (induction xs arbitrary: i) auto

lemma nth_map_index: "n < length xs \<Longrightarrow> map_index f i xs ! n = f (xs ! n) (i + n)"
proof (induction xs arbitrary: i n)
  case Nil
  then show ?case by simp
next
  case (Cons x xs)
  then show ?case by (cases n) auto
qed

lemma set_map_index: "c \<in> set (map_index f i xs) \<Longrightarrow> \<exists>x k. c = f x k"
  by (induction xs arbitrary: i) auto

lemma index_append: "i < length r \<Longrightarrow> index (r @ extra) i = index r i"
  by (simp add: index_def nth_append)

section \<open>Facts about \<open>trim\<close>\<close>





section \<open>The response when a header row is found\<close>

lemma get_cases_found:
  assumes "headerRowIndex rows = int h"
  shows "get_cases (Inr (Some rows)) =
     Response 200 (CasesBody (build_headers (rows ! h))
                    (casesData (build_headers (rows ! h)) (h + 1) rows))"
proof -
  from assms have "h < length rows"
    using scan_header_found[of rows 0 h] by (simp add: headerRowIndex_def)
  then have 1: "length rows \<noteq> 0" by auto
  have 2: "headerRowIndex rows \<noteq> - 1" using assms by simp
  have 3: "nat (headerRowIndex rows) = h" using assms by simp
  show ?thesis
    unfolding get_cases_def by (simp only: 1 2 3 Let_def sum.case option.case if_False)
qed

section \<open>Facts about objects and records\<close>

lemma props_obj_set:
  "x \<noteq> ''__proto__'' \<Longrightarrow> props (obj_set obj k v) x = (if k = x then Some v else props obj x)"
  by (auto simp: obj_set_def)

lemma dom_obj_set: "dom (props (obj_set obj k v)) \<subseteq> insert k (dom (props obj))"
  by (auto simp: obj_set_def split: if_splits)

lemma dom_assign_fields: "dom (props (assign_fields hs i r obj)) \<subseteq> dom (props obj) \<union> set hs"
proof (induction hs arbitrary: i obj)
  case Nil
  then show ?case by simp
next
  case (Cons a hs)
  have "dom (props (assign_fields hs (Suc i) r (obj_set obj a (index r i))))
          \<subseteq> dom (props (obj_set obj a (index r i))) \<union> set hs"
    by (rule Cons.IH)
  also have "\<dots> \<subseteq> insert a (dom (props obj)) \<union> set hs"
    using dom_obj_set[of obj a "index r i"] by blast
  finally show ?case by auto
qed

lemma assign_fields_other:
  "x \<noteq> ''__proto__'' \<Longrightarrow> x \<notin> set hs \<Longrightarrow> props (assign_fields hs i r obj) x = props obj x"
  by (induction hs arbitrary: i obj) (auto simp: props_obj_set)

lemma assign_fields_last:
  assumes "x \<noteq> ''__proto__''"
  shows "j < length hs \<Longrightarrow> hs ! j = x \<Longrightarrow> x \<notin> set (drop (Suc j) hs) \<Longrightarrow>
         props (assign_fields hs i r obj) x = Some (index r (i + j))"
proof (induction hs arbitrary: i j obj)
  case Nil
  then show ?case by simp
next
  case (Cons a hs)
  show ?case
  proof (cases j)
    case 0
    with Cons.prems have "a = x" "x \<notin> set hs" by simp_all
    then show ?thesis
      using 0 assms by (simp add: assign_fields_other props_obj_set)
  next
    case (Suc k)
    with Cons.prems have "k < length hs" "hs ! k = x" "x \<notin> set (drop (Suc k) hs)"
      by simp_all
    from Cons.IH[OF this, of "Suc i" "obj_set obj a (index r i)"] Suc
    show ?thesis by simp
  qed
qed

lemma assign_fields_append:
  "length hs + i \<le> length r \<Longrightarrow> assign_fields hs i (r @ extra) obj = assign_fields hs i r obj"
proof (induction hs arbitrary: i obj)
  case Nil
  then show ?case by simp
next
  case (Cons a hs)
  from Cons.prems have "i < length r" and "length hs + Suc i \<le> length r" by simp_all
  then show ?case using Cons.IH[of "Suc i"] by (simp add: index_append)
qed


lemma dom_caseObject: "dom (props (caseObject hs d r idx)) \<subseteq> set hs \<union> {''rowIndex''}"
proof -
  have "dom (props (caseObject hs d r idx))
          \<subseteq> insert ''rowIndex'' (dom (props (assign_fields hs 0 r empty_object)))"
    unfolding caseObject_def by (rule dom_obj_set)
  moreover have "dom (props (assign_fields hs 0 r empty_object)) \<subseteq> set hs"
    using dom_assign_fields[of hs 0 r empty_object] by (simp add: empty_object_def)
  ultimately show ?thesis by blast
qed

lemma props_rowIndex:
  "props (caseObject hs d r idx) ''rowIndex'' = Some (Num (int (d + idx + 1)))"
  by (simp add: caseObject_def props_obj_set)

lemma rowIndex_caseObject:
  "obj_get (caseObject hs d r idx) ''rowIndex'' = Value (Num (int (d + idx + 1)))"
  by (simp add: obj_get_def props_rowIndex)

lemma caseObject_header:
  assumes "x \<noteq> ''__proto__''" "x \<noteq> ''rowIndex''"
    and "j < length hs" "hs ! j = x" "x \<notin> set (drop (Suc j) hs)"
  shows "props (caseObject hs d r idx) x = Some (index r j)"
  using assms assign_fields_last[OF assms(1,3,4,5), of 0 r empty_object]
  by (simp add: caseObject_def props_obj_set)


lemma caseObject_append:
  "length hs \<le> length r \<Longrightarrow> caseObject hs d (r @ extra) idx = caseObject hs d r idx"
  using assign_fields_append[of hs 0 r extra empty_object] by (simp add: caseObject_def)


lemma length_casesData: "length (casesData hs d rows) = length rows - d"
  by (simp add: casesData_def length_map_index)

lemma nth_casesData:
  "n < length rows - d \<Longrightarrow> casesData hs d rows ! n = caseObject hs d (rows ! (d + n)) n"
  by (simp add: casesData_def nth_map_index)


section \<open>Facts about the serialization\<close>

lemma or_null_value:
  "or_null (Value (index r j)) = Value (if j < length r \<and> truthy (r ! j) then r ! j else Null)"
  by (simp add: or_null_def index_def)

lemma or_null_received:
  assumes "x \<noteq> ''__proto__''" and "props c x = Some v"
  shows "or_null (obj_get (as_received c) x)
       = (if x \<in> set object_prototype_methods \<and> v = Undefined then BuiltinFunction x
          else Value (if truthy v then v else Null))"
proof (cases "v = Undefined")
  case True
  then have "props (as_received c) x = None"
    using assms(2) by (simp add: as_received_def json_props_def)
  then show ?thesis
    using assms(1) True by (simp add: obj_get_def as_received_def or_null_def)
next
  case False
  then have "props (as_received c) x = Some v"
    using assms(2) by (cases v) (simp_all add: as_received_def json_props_def)
  then show ?thesis
    using False by (simp add: obj_get_def or_null_def)
qed

lemma serialize_row_object:
  "serialize_row hs (Some obj) = Inr (map (\<lambda>header. or_null (obj_get obj header)) hs)"
  by (cases hs) simp_all

lemma serialize_objects:
  "serialize hs (map Some objs)
     = Inr (map (\<lambda>obj. map (\<lambda>header. or_null (obj_get obj header)) hs) objs)"
  by (induction objs) (simp_all add: serialize_row_object)

lemma serialize_received:
  "serialize hs (map (\<lambda>c. Some (as_received c)) cs)
     = Inr (map (\<lambda>c. map (\<lambda>header. or_null (obj_get (as_received c) header)) hs) cs)"
  using serialize_objects[of hs "map as_received cs"] by (simp add: comp_def)

lemma serialize_no_header: "serialize [] cs = Inr (map (\<lambda>caso. []) cs)"
  by (induction cs) simp_all

lemma serialize_null_case:
  "hs \<noteq> [] \<Longrightarrow> None \<in> set cs \<Longrightarrow> \<exists>e. serialize hs cs = Inl e"
proof (induction cs)
  case Nil
  then show ?case by simp
next
  case (Cons c cs)
  from Cons.prems(1) obtain x xs where hs: "hs = x # xs" by (cases hs) auto
  show ?case
  proof (cases c)
    case None
    then show ?thesis by (simp add: hs)
  next
    case (Some obj)
    with Cons.prems have "None \<in> set cs" by simp
    with Cons.IH Cons.prems(1) obtain e where "serialize hs cs = Inl e" by blast
    then show ?thesis by (simp add: Some serialize_row_object)
  qed
qed

section \<open>Facts about the sample inputs, the ranges and \<open>split\<close>\<close>

lemma sample_grid_header: "headerRowIndex sample_grid = int 1"
  by code_simp

lemma mixed_grid_header: "headerRowIndex mixed_grid = int 0"
  by code_simp

lemma mixed_grid_plain: "\<forall>c \<in> set (mixed_grid ! 0). plain_number c"
  by (simp add: mixed_grid_def plain_number_def)

lemma mixed_grid_headers:
  "body_headers (body (get_cases (Inr (Some mixed_grid))))
     = [''EXPEDIENTE'', ''NOMBRES'', ''RUT'', ''5'', '''', ''Fecha'']"
  by code_simp

lemma clear_call_value: "clear_call = Clear SPREADSHEET_ID ''BD!A4:ZZ''"
  unfolding clear_call_def SHEET_NAME_def dataStartRow_def by code_simp

lemma split_nonempty: "split s sep \<noteq> []"
  by (induction s) (auto split: list.splits)

lemma split_first: "split s sep ! 0 = takeWhile (\<lambda>c. c \<noteq> sep) s"
proof (induction s)
  case Nil
  then show ?case by simp
next
  case (Cons c s)
  show ?case
  proof (cases "c = sep")
    case True
    then show ?thesis by simp
  next
    case False
    obtain x xs where x: "split s sep = x # xs"
      using split_nonempty[of s sep] by (cases "split s sep") auto
    with Cons False show ?thesis by simp
  qed
qed

section \<open>The claims about GET /api/cases\<close>

text \<open>
  C1 (header locator). \<open>headerRowIndex\<close> is the index \<open>h\<close> exactly when row \<open>h\<close> lies
  among the first \<open>min (10, number of rows)\<close> rows, contains the three marker strings and
  no earlier row does; it is \<open>-1\<close> exactly when no row of that window contains them; it
  is never an index of 10 or more. A row qualifies exactly when its raw cell list has the
  three cells \<open>'EXPEDIENTE'\<close>, \<open>'NOMBRES'\<close> and \<open>'RUT'\<close>: a row without the exact cell
  of some marker (for instance with that marker padded by white space) does not qualify.
\<close>

theorem header_locator:
  "(headerRowIndex rows = int h \<longleftrightarrow>
      h < length rows \<and> h < 10 \<and> is_header_row (rows ! h)
      \<and> (\<forall>j<h. \<not> is_header_row (rows ! j)))
   \<and> (headerRowIndex rows = - 1 \<longleftrightarrow>
      (\<forall>j. j < length rows \<and> j < 10 \<longrightarrow> \<not> is_header_row (rows ! j)))
   \<and> (headerRowIndex rows = - 1 \<or> (\<exists>k<10. headerRowIndex rows = int k))
   \<and> (is_header_row r \<longleftrightarrow>
      Str ''EXPEDIENTE'' \<in> set r \<and> Str ''NOMBRES'' \<in> set r \<and> Str ''RUT'' \<in> set r)
   \<and> (m \<in> {''EXPEDIENTE'', ''NOMBRES'', ''RUT''} \<and> Str m \<notin> set r \<longrightarrow> \<not> is_header_row r)"
proof -
  have a: "headerRowIndex rows = int h \<longleftrightarrow>
      h < length rows \<and> h < 10 \<and> is_header_row (rows ! h)
      \<and> (\<forall>j<h. \<not> is_header_row (rows ! j))"
    unfolding headerRowIndex_def using scan_header_found[of rows 0 h] by simp
  have b: "headerRowIndex rows = - 1 \<longleftrightarrow>
      (\<forall>j. j < length rows \<and> j < 10 \<longrightarrow> \<not> is_header_row (rows ! j))"
    unfolding headerRowIndex_def using scan_header_none[of rows 0] by simp
  have c: "headerRowIndex rows = - 1 \<or> (\<exists>k<10. headerRowIndex rows = int k)"
  proof (cases "headerRowIndex rows = - 1")
    case True
    then show ?thesis by simp
  next
    case False
    then obtain k where k: "scan_header rows 0 = int k"
      using scan_header_range[of rows 0] by (auto simp: headerRowIndex_def)
    then have "k < 10" using scan_header_found[of rows 0 k] by simp
    with k show ?thesis by (auto simp: headerRowIndex_def)
  qed
  have d: "is_header_row r \<longleftrightarrow>
      Str ''EXPEDIENTE'' \<in> set r \<and> Str ''NOMBRES'' \<in> set r \<and> Str ''RUT'' \<in> set r"
    by (simp add: is_header_row_def array_includes_def)
  have e: "m \<in> {''EXPEDIENTE'', ''NOMBRES'', ''RUT''} \<and> Str m \<notin> set r \<longrightarrow> \<not> is_header_row r"
    using d by blast
  from a b c d e show ?thesis by blast
qed

theorem header_locator_witness:
  "headerRowIndex
     [[Str ''Listado''], [Str '' EXPEDIENTE'', Str ''NOMBRES'', Str ''RUT''],
      [Str ''EXPEDIENTE'', Str ''NOMBRES'', Str ''RUT''],
      [Str ''EXPEDIENTE'', Str ''NOMBRES'', Str ''RUT'']] = 2
   \<and> headerRowIndex (replicate 10 [] @ [[Str ''EXPEDIENTE'', Str ''NOMBRES'', Str ''RUT'']]) = - 1
   \<and> \<not> is_header_row [Str '' EXPEDIENTE'', Str ''NOMBRES'', Str ''RUT'']"
proof -
  let ?hdr = "[Str ''EXPEDIENTE'', Str ''NOMBRES'', Str ''RUT'']"
  let ?pad = "[Str '' EXPEDIENTE'', Str ''NOMBRES'', Str ''RUT'']"
  let ?g = "[[Str ''Listado''], ?pad, ?hdr, ?hdr]"
  let ?far = "replicate 10 [] @ [?hdr]"
  have pad: "\<not> is_header_row ?pad"
    using header_locator[of ?g 2 ?pad "''EXPEDIENTE''"] by simp
  have hdr: "is_header_row ?hdr"
    by (simp add: is_header_row_def array_includes_def)
  have none: "\<not> is_header_row [Str ''Listado'']" "\<not> is_header_row []"
    by (simp_all add: is_header_row_def array_includes_def)
  have "\<forall>j<2. \<not> is_header_row (?g ! j)"
    using pad none by (simp add: less_Suc_eq numeral_2_eq_2)
  then have 1: "headerRowIndex ?g = 2"
    using header_locator[of ?g 2 ?pad "''EXPEDIENTE''"] hdr by simp
  have "\<forall>j. j < length ?far \<and> j < 10 \<longrightarrow> \<not> is_header_row (?far ! j)"
    using none by (simp add: nth_append)
  then have 2: "headerRowIndex ?far = - 1"
    using header_locator[of ?far 0 ?pad "''EXPEDIENTE''"] by blast
  from 1 2 pad show ?thesis by simp
qed

text \<open>
  C5 (fail open to empty). When \<open>response.data.values\<close> is absent or empty, or no row
  among the first 10 contains the three markers, the handler answers with status 200 and
  the body \<open>{headers: [], cases: []}\<close>.
\<close>

theorem fail_open_to_empty:
  "get_cases (Inr None) = Response 200 (CasesBody [] [])
   \<and> get_cases (Inr (Some [])) = Response 200 (CasesBody [] [])
   \<and> ((\<forall>i. i < length rows \<and> i < 10 \<longrightarrow> \<not> is_header_row (rows ! i)) \<longrightarrow>
        get_cases (Inr (Some rows)) = Response 200 (CasesBody [] []))"
proof -
  have "headerRowIndex rows = - 1"
    if "\<forall>i. i < length rows \<and> i < 10 \<longrightarrow> \<not> is_header_row (rows ! i)"
    unfolding headerRowIndex_def using scan_header_none[of rows 0] that by simp
  then show ?thesis by (simp add: get_cases_def)
qed

theorem fail_open_to_empty_witness:
  "get_cases (Inr (Some [[Str ''Listado''], [Str ''RUT'']])) = Response 200 (CasesBody [] [])"
proof -
  let ?g = "[[Str ''Listado''], [Str ''RUT'']]"
  have "\<forall>i. i < length ?g \<and> i < 10 \<longrightarrow> \<not> is_header_row (?g ! i)"
    by (auto simp add: is_header_row_def array_includes_def less_Suc_eq numeral_2_eq_2)
  then show ?thesis using fail_open_to_empty[of ?g] by blast
qed

text \<open>
  C2 (row index formula). When the header row is found at index \<open>h\<close>, the response has
  one record for each row after it, the \<open>n\<close>-th record (counted from 0) carries
  \<open>rowIndex = h + n + 2\<close>, and consecutive records carry consecutive values.
\<close>

theorem rowIndex_formula:
  assumes "headerRowIndex rows = int h"
  shows "length (body_cases (body (get_cases (Inr (Some rows))))) = length rows - (h + 1)
    \<and> (\<forall>n < length rows - (h + 1).
          obj_get (body_cases (body (get_cases (Inr (Some rows)))) ! n) ''rowIndex''
            = Value (Num (int h + int n + 2)))
    \<and> (\<forall>n. Suc n < length rows - (h + 1) \<longrightarrow>
          (\<exists>k. obj_get (body_cases (body (get_cases (Inr (Some rows)))) ! n) ''rowIndex'' = Value (Num k)
             \<and> obj_get (body_cases (body (get_cases (Inr (Some rows)))) ! Suc n) ''rowIndex''
                 = Value (Num (k + 1))))"
proof -
  let ?cs = "body_cases (body (get_cases (Inr (Some rows))))"
  have cs: "?cs = casesData (build_headers (rows ! h)) (h + 1) rows"
    by (simp add: get_cases_found[OF assms])
  have len: "length ?cs = length rows - (h + 1)"
    by (simp only: cs length_casesData)
  have idx: "obj_get (?cs ! n) ''rowIndex'' = Value (Num (int h + int n + 2))"
    if "n < length rows - (h + 1)" for n
    using that by (simp only: cs nth_casesData rowIndex_caseObject) simp
  have "obj_get (?cs ! Suc n) ''rowIndex'' = Value (Num ((int h + int n + 2) + 1))"
    if "Suc n < length rows - (h + 1)" for n
    using idx[OF that] by simp
  moreover have "obj_get (?cs ! n) ''rowIndex'' = Value (Num (int h + int n + 2))"
    if "Suc n < length rows - (h + 1)" for n
    using idx[of n] that by simp
  ultimately show ?thesis using len idx by blast
qed

theorem rowIndex_formula_witness:
  "headerRowIndex sample_grid = int 1
   \<and> length (body_cases (body (get_cases (Inr (Some sample_grid))))) = 2
   \<and> obj_get (body_cases (body (get_cases (Inr (Some sample_grid)))) ! 0) ''rowIndex'' = Value (Num 3)
   \<and> obj_get (body_cases (body (get_cases (Inr (Some sample_grid)))) ! 1) ''rowIndex'' = Value (Num 4)"
proof -
  have len: "length sample_grid - (1 + 1) = 2" by (simp add: sample_grid_def)
  from rowIndex_formula[OF sample_grid_header] show ?thesis
    unfolding len using sample_grid_header by simp
qed

text \<open>
  C9 (column vocabulary). When the header row is found at index \<open>h\<close>, the headers of the
  response are the header list built from that row, and every key of every record is one
  of these headers or \<open>rowIndex\<close>. A data row that is longer than the header list gives
  the same record as the row cut to the header list's length: its trailing cells are
  discarded.
\<close>

theorem column_vocabulary:
  assumes "headerRowIndex rows = int h"
  shows "body_headers (body (get_cases (Inr (Some rows)))) = build_headers (rows ! h)
    \<and> (\<forall>c \<in> set (body_cases (body (get_cases (Inr (Some rows))))).
          dom (props c) \<subseteq> set (build_headers (rows ! h)) \<union> {''rowIndex''})
    \<and> (length (build_headers (rows ! h)) \<le> length r \<longrightarrow>
          caseObject (build_headers (rows ! h)) d (r @ extra) idx
            = caseObject (build_headers (rows ! h)) d r idx)"
proof -
  let ?hs = "build_headers (rows ! h)"
  let ?cs = "body_cases (body (get_cases (Inr (Some rows))))"
  have cs: "?cs = casesData ?hs (h + 1) rows"
    by (simp add: get_cases_found[OF assms])
  have "dom (props c) \<subseteq> set ?hs \<union> {''rowIndex''}" if "c \<in> set ?cs" for c
  proof -
    from that obtain x k where "c = caseObject ?hs (h + 1) x k"
      unfolding cs casesData_def by (blast dest: set_map_index)
    then show ?thesis using dom_caseObject by simp
  qed
  moreover have "body_headers (body (get_cases (Inr (Some rows)))) = ?hs"
    by (simp add: get_cases_found[OF assms])
  ultimately show ?thesis using caseObject_append by blast
qed

theorem column_vocabulary_witness:
  "headerRowIndex sample_grid = int 1
   \<and> dom (props (body_cases (body (get_cases (Inr (Some sample_grid)))) ! 0))
        \<subseteq> {''EXPEDIENTE'', ''NOMBRES'', ''RUT'', ''rowIndex''}
   \<and> caseObject (build_headers (sample_grid ! 1)) 2
        ([Str ''12-2020'', Str ''x'', Str ''Ana Soto'', Str ''1-9''] @ [Str ''sobra'']) 0
      = caseObject (build_headers (sample_grid ! 1)) 2
        [Str ''12-2020'', Str ''x'', Str ''Ana Soto'', Str ''1-9''] 0"
proof -
  let ?cs = "body_cases (body (get_cases (Inr (Some sample_grid))))"
  let ?r = "[Str ''12-2020'', Str ''x'', Str ''Ana Soto'', Str ''1-9'']"
  note cv = column_vocabulary[OF sample_grid_header, of ?r 2 "[Str ''sobra'']" 0]
  have hs: "build_headers (sample_grid ! 1) = [''EXPEDIENTE'', ''NOMBRES'', ''NOMBRES'', ''RUT'']"
    by code_simp
  have st: "set (build_headers (sample_grid ! 1)) \<union> {''rowIndex''}
             = {''EXPEDIENTE'', ''NOMBRES'', ''RUT'', ''rowIndex''}"
    unfolding hs by auto
  have le: "length (build_headers (sample_grid ! 1)) \<le> length ?r"
    unfolding hs by simp
  have "length ?cs = length sample_grid - (1 + 1)"
    by (simp only: get_cases_found[OF sample_grid_header] response.sel body.sel length_casesData)
  then have "length ?cs = 2"
    by (simp add: sample_grid_def)
  then have mem: "?cs ! 0 \<in> set ?cs" by simp
  from cv have "\<forall>c \<in> set ?cs. dom (props c) \<subseteq> set (build_headers (sample_grid ! 1)) \<union> {''rowIndex''}"
    by blast
  with mem have "dom (props (?cs ! 0)) \<subseteq> set (build_headers (sample_grid ! 1)) \<union> {''rowIndex''}"
    by blast
  then have a: "dom (props (?cs ! 0)) \<subseteq> {''EXPEDIENTE'', ''NOMBRES'', ''RUT'', ''rowIndex''}"
    unfolding st .
  from cv le have b: "caseObject (build_headers (sample_grid ! 1)) 2 (?r @ [Str ''sobra'']) 0
      = caseObject (build_headers (sample_grid ! 1)) 2 ?r 0"
    by blast
  show ?thesis by (rule conjI[OF sample_grid_header conjI[OF a b]])
qed




text \<open>
  C3 (round trip) as stated does not hold. Columns with equal headers share one key of
  the record, which keeps the cell of the last of them, and a cell past the header row has
  no key: for \<open>repeated_header_grid\<close>, whose two unnamed columns both have the header
  \<open>''\<close>, the cell \<open>'x'\<close> comes back as \<open>'y'\<close> and the cell \<open>'sobra'\<close> does not come
  back. For \<open>special_header_grid\<close> the column \<open>rowIndex\<close> comes back as the row number
  \<open>2\<close> instead of \<open>'d'\<close>, the column \<open>__proto__\<close> as \<open>Object.prototype\<close> instead of
  \<open>'e'\<close>, and the cell \<open>0\<close> as \<open>null\<close>.
\<close>

theorem round_trip_counterexample:
  "serialize (body_headers (body (get_cases (Inr (Some repeated_header_grid)))))
     (map Some (body_cases (body (get_cases (Inr (Some repeated_header_grid))))))
   = Inr [[Value (Str ''12-2020''), Value (Str ''y''), Value (Str ''Ana Soto''), Value (Str ''y''),
           Value (Str ''1-9'')]]
   \<and> serialize (body_headers (body (get_cases (Inr (Some special_header_grid)))))
     (map Some (body_cases (body (get_cases (Inr (Some special_header_grid))))))
   = Inr [[Value (Str ''a''), Value (Str ''b''), Value (Str ''c''), Value (Num 2),
           ObjectPrototypeObject, Value Null]]"
  by code_simp

text \<open>
  C3, amended. When the header row is found at index \<open>h\<close> (its numeric cells being
  integers of magnitude up to \<open>2^53\<close>), serializing the record objects of the response
  with the headers of the response throws nothing and gives one row for each data row,
  with exactly one entry for each header. In every column whose header is neither
  \<open>__proto__\<close> nor \<open>rowIndex\<close> and does not occur again in a later column, the entry is
  the original cell when the data row has a truthy cell in that column, and \<open>null\<close>
  otherwise (the cell is missing or falsy). Columns with equal headers get equal entries.
  Cells of a data row in columns past the header row are not reproduced.
  The same holds when the records are serialized as they come back in a request body,
  with one exception: under a header that names a method of \<open>Object.prototype\<close>, a cell
  that is missing or \<open>undefined\<close> gives that built-in function instead of \<open>null\<close>.
\<close>

theorem round_trip:
  assumes "headerRowIndex rows = int h"
    and "\<forall>c \<in> set (rows ! h). plain_number c"
  shows "(\<exists>vs. serialize (body_headers (body (get_cases (Inr (Some rows)))))
                 (map Some (body_cases (body (get_cases (Inr (Some rows)))))) = Inr vs
    \<and> length vs = length rows - (h + 1)
    \<and> (\<forall>n < length rows - (h + 1).
          length (vs ! n) = length (rows ! h)
          \<and> (\<forall>j < length (rows ! h).
                body_headers (body (get_cases (Inr (Some rows)))) ! j \<noteq> ''__proto__''
                \<and> body_headers (body (get_cases (Inr (Some rows)))) ! j \<noteq> ''rowIndex''
                \<and> body_headers (body (get_cases (Inr (Some rows)))) ! j
                    \<notin> set (drop (Suc j) (body_headers (body (get_cases (Inr (Some rows))))))
                \<longrightarrow> vs ! n ! j
                      = Value (if j < length (rows ! (h + 1 + n)) \<and> truthy (rows ! (h + 1 + n) ! j)
                               then rows ! (h + 1 + n) ! j else Null))
          \<and> (\<forall>j < length (rows ! h). \<forall>k < length (rows ! h).
                body_headers (body (get_cases (Inr (Some rows)))) ! j
                  = body_headers (body (get_cases (Inr (Some rows)))) ! k
                \<longrightarrow> vs ! n ! j = vs ! n ! k)))
    \<and> (\<exists>ws. serialize (body_headers (body (get_cases (Inr (Some rows)))))
                 (map (\<lambda>c. Some (as_received c))
                    (body_cases (body (get_cases (Inr (Some rows)))))) = Inr ws
    \<and> length ws = length rows - (h + 1)
    \<and> (\<forall>n < length rows - (h + 1).
          length (ws ! n) = length (rows ! h)
          \<and> (\<forall>j < length (rows ! h).
                body_headers (body (get_cases (Inr (Some rows)))) ! j \<noteq> ''__proto__''
                \<and> body_headers (body (get_cases (Inr (Some rows)))) ! j \<noteq> ''rowIndex''
                \<and> body_headers (body (get_cases (Inr (Some rows)))) ! j
                    \<notin> set (drop (Suc j) (body_headers (body (get_cases (Inr (Some rows))))))
                \<longrightarrow> ws ! n ! j
                      = (if body_headers (body (get_cases (Inr (Some rows)))) ! j
                              \<in> set object_prototype_methods
                            \<and> index (rows ! (h + 1 + n)) j = Undefined
                         then BuiltinFunction (body_headers (body (get_cases (Inr (Some rows)))) ! j)
                         else Value (if j < length (rows ! (h + 1 + n))
                                        \<and> truthy (rows ! (h + 1 + n) ! j)
                                     then rows ! (h + 1 + n) ! j else Null)))))"
proof -
  let ?hs = "build_headers (rows ! h)"
  let ?G = "get_cases (Inr (Some rows))"
  let ?cs = "casesData ?hs (h + 1) rows"
  let ?vs = "map (\<lambda>obj. map (\<lambda>header. or_null (obj_get obj header)) ?hs) ?cs"
  have hs: "body_headers (body ?G) = ?hs"
    by (simp add: get_cases_found[OF assms(1)])
  have cs: "body_cases (body ?G) = ?cs"
    by (simp add: get_cases_found[OF assms(1)])
  have len: "length ?hs = length (rows ! h)"
    by (simp add: build_headers_def)
  have ser: "serialize ?hs (map Some ?cs) = Inr ?vs"
    by (rule serialize_objects)
  have lvs: "length ?vs = length rows - (h + 1)"
    by (simp add: length_casesData)
  have row: "?vs ! n = map (\<lambda>header. or_null (obj_get (caseObject ?hs (h + 1) (rows ! (h + 1 + n)) n) header)) ?hs"
    if "n < length rows - (h + 1)" for n
    using that by (simp add: length_casesData nth_casesData)
  have entry: "?vs ! n ! j = or_null (obj_get (caseObject ?hs (h + 1) (rows ! (h + 1 + n)) n) (?hs ! j))"
    if "n < length rows - (h + 1)" "j < length (rows ! h)" for n j
    using that len by (simp add: length_casesData nth_casesData)
  have good: "?vs ! n ! j
      = Value (if j < length (rows ! (h + 1 + n)) \<and> truthy (rows ! (h + 1 + n) ! j)
               then rows ! (h + 1 + n) ! j else Null)"
    if n: "n < length rows - (h + 1)" and j: "j < length (rows ! h)"
      and g: "?hs ! j \<noteq> ''__proto__''" "?hs ! j \<noteq> ''rowIndex''" "?hs ! j \<notin> set (drop (Suc j) ?hs)"
    for n j
  proof -
    have "j < length ?hs" using j len by simp
    from caseObject_header[OF g(1) g(2) this refl g(3)]
    have "obj_get (caseObject ?hs (h + 1) (rows ! (h + 1 + n)) n) (?hs ! j)
            = Value (index (rows ! (h + 1 + n)) j)"
      by (simp add: obj_get_def)
    then show ?thesis
      by (simp only: entry[OF n j] or_null_value)
  qed
  have same: "?vs ! n ! j = ?vs ! n ! k"
    if "n < length rows - (h + 1)" "j < length (rows ! h)" "k < length (rows ! h)"
      "?hs ! j = ?hs ! k" for n j k
    using that by (simp only: entry)
  have rlen: "length (?vs ! n) = length (rows ! h)" if "n < length rows - (h + 1)" for n
    using that len by (simp add: length_casesData nth_casesData)
  have A: "\<forall>n < length rows - (h + 1).
          length (?vs ! n) = length (rows ! h)
          \<and> (\<forall>j < length (rows ! h).
                ?hs ! j \<noteq> ''__proto__'' \<and> ?hs ! j \<noteq> ''rowIndex''
                \<and> ?hs ! j \<notin> set (drop (Suc j) ?hs)
                \<longrightarrow> ?vs ! n ! j
                      = Value (if j < length (rows ! (h + 1 + n)) \<and> truthy (rows ! (h + 1 + n) ! j)
                               then rows ! (h + 1 + n) ! j else Null))
          \<and> (\<forall>j < length (rows ! h). \<forall>k < length (rows ! h).
                ?hs ! j = ?hs ! k \<longrightarrow> ?vs ! n ! j = ?vs ! n ! k)"
  proof (intro allI impI)
    fix n
    assume n: "n < length rows - (h + 1)"
    have g: "\<forall>j < length (rows ! h).
                ?hs ! j \<noteq> ''__proto__'' \<and> ?hs ! j \<noteq> ''rowIndex''
                \<and> ?hs ! j \<notin> set (drop (Suc j) ?hs)
                \<longrightarrow> ?vs ! n ! j
                      = Value (if j < length (rows ! (h + 1 + n)) \<and> truthy (rows ! (h + 1 + n) ! j)
                               then rows ! (h + 1 + n) ! j else Null)"
    proof (intro allI impI)
      fix j
      assume j: "j < length (rows ! h)"
        and c: "?hs ! j \<noteq> ''__proto__'' \<and> ?hs ! j \<noteq> ''rowIndex''
                \<and> ?hs ! j \<notin> set (drop (Suc j) ?hs)"
      show "?vs ! n ! j
                      = Value (if j < length (rows ! (h + 1 + n)) \<and> truthy (rows ! (h + 1 + n) ! j)
                               then rows ! (h + 1 + n) ! j else Null)"
        by (rule good[OF n j c[THEN conjunct1] c[THEN conjunct2, THEN conjunct1]
              c[THEN conjunct2, THEN conjunct2]])
    qed
    have s: "\<forall>j < length (rows ! h). \<forall>k < length (rows ! h).
                ?hs ! j = ?hs ! k \<longrightarrow> ?vs ! n ! j = ?vs ! n ! k"
      by (intro allI impI) (rule same[OF n])
    show "length (?vs ! n) = length (rows ! h)
          \<and> (\<forall>j < length (rows ! h).
                ?hs ! j \<noteq> ''__proto__'' \<and> ?hs ! j \<noteq> ''rowIndex''
                \<and> ?hs ! j \<notin> set (drop (Suc j) ?hs)
                \<longrightarrow> ?vs ! n ! j
                      = Value (if j < length (rows ! (h + 1 + n)) \<and> truthy (rows ! (h + 1 + n) ! j)
                               then rows ! (h + 1 + n) ! j else Null))
          \<and> (\<forall>j < length (rows ! h). \<forall>k < length (rows ! h).
                ?hs ! j = ?hs ! k \<longrightarrow> ?vs ! n ! j = ?vs ! n ! k)"
      by (rule conjI[OF rlen[OF n] conjI[OF g s]])
  qed
  have D: "\<exists>vs. serialize (body_headers (body ?G))
                 (map Some (body_cases (body ?G))) = Inr vs
    \<and> length vs = length rows - (h + 1)
    \<and> (\<forall>n < length rows - (h + 1).
          length (vs ! n) = length (rows ! h)
          \<and> (\<forall>j < length (rows ! h).
                body_headers (body ?G) ! j \<noteq> ''__proto__''
                \<and> body_headers (body ?G) ! j \<noteq> ''rowIndex''
                \<and> body_headers (body ?G) ! j
                    \<notin> set (drop (Suc j) (body_headers (body ?G)))
                \<longrightarrow> vs ! n ! j
                      = Value (if j < length (rows ! (h + 1 + n)) \<and> truthy (rows ! (h + 1 + n) ! j)
                               then rows ! (h + 1 + n) ! j else Null))
          \<and> (\<forall>j < length (rows ! h). \<forall>k < length (rows ! h).
                body_headers (body ?G) ! j
                  = body_headers (body ?G) ! k
                \<longrightarrow> vs ! n ! j = vs ! n ! k))"
    unfolding hs cs by (rule exI[where x = ?vs]) (rule conjI[OF ser conjI[OF lvs A]])
  let ?ws = "map (\<lambda>c. map (\<lambda>header. or_null (obj_get (as_received c) header)) ?hs) ?cs"
  have wser: "serialize ?hs (map (\<lambda>c. Some (as_received c)) ?cs) = Inr ?ws"
    by (rule serialize_received)
  have lws: "length ?ws = length rows - (h + 1)"
    by (simp add: length_casesData)
  have wlen: "length (?ws ! n) = length (rows ! h)" if "n < length rows - (h + 1)" for n
    using that len by (simp add: length_casesData nth_casesData)
  have wentry: "?ws ! n ! j
      = or_null (obj_get (as_received (caseObject ?hs (h + 1) (rows ! (h + 1 + n)) n)) (?hs ! j))"
    if "n < length rows - (h + 1)" "j < length (rows ! h)" for n j
    using that len by (simp add: length_casesData nth_casesData)
  have wgood: "?ws ! n ! j
      = (if ?hs ! j \<in> set object_prototype_methods \<and> index (rows ! (h + 1 + n)) j = Undefined
         then BuiltinFunction (?hs ! j)
         else Value (if j < length (rows ! (h + 1 + n)) \<and> truthy (rows ! (h + 1 + n) ! j)
                     then rows ! (h + 1 + n) ! j else Null))"
    if n: "n < length rows - (h + 1)" and j: "j < length (rows ! h)"
      and g: "?hs ! j \<noteq> ''__proto__'' \<and> ?hs ! j \<noteq> ''rowIndex''
              \<and> ?hs ! j \<notin> set (drop (Suc j) ?hs)"
    for n j
  proof -
    have "j < length ?hs" using j len by simp
    from caseObject_header[OF g[THEN conjunct1] g[THEN conjunct2, THEN conjunct1] this refl
        g[THEN conjunct2, THEN conjunct2]]
    have p: "props (caseObject ?hs (h + 1) (rows ! (h + 1 + n)) n) (?hs ! j)
               = Some (index (rows ! (h + 1 + n)) j)" .
    have v: "(if truthy (index r k) then index r k else Null)
               = (if k < length r \<and> truthy (r ! k) then r ! k else Null)" for r k
      by (simp add: index_def)
    show ?thesis
      unfolding wentry[OF n j] or_null_received[OF g[THEN conjunct1] p] v ..
  qed
  have B: "\<forall>n < length rows - (h + 1).
          length (?ws ! n) = length (rows ! h)
          \<and> (\<forall>j < length (rows ! h).
                ?hs ! j \<noteq> ''__proto__'' \<and> ?hs ! j \<noteq> ''rowIndex''
                \<and> ?hs ! j \<notin> set (drop (Suc j) ?hs)
                \<longrightarrow> ?ws ! n ! j
                      = (if ?hs ! j \<in> set object_prototype_methods
                            \<and> index (rows ! (h + 1 + n)) j = Undefined
                         then BuiltinFunction (?hs ! j)
                         else Value (if j < length (rows ! (h + 1 + n))
                                        \<and> truthy (rows ! (h + 1 + n) ! j)
                                     then rows ! (h + 1 + n) ! j else Null)))"
  proof (intro allI impI)
    fix n
    assume n: "n < length rows - (h + 1)"
    have g: "\<forall>j < length (rows ! h).
                ?hs ! j \<noteq> ''__proto__'' \<and> ?hs ! j \<noteq> ''rowIndex''
                \<and> ?hs ! j \<notin> set (drop (Suc j) ?hs)
                \<longrightarrow> ?ws ! n ! j
                      = (if ?hs ! j \<in> set object_prototype_methods
                            \<and> index (rows ! (h + 1 + n)) j = Undefined
                         then BuiltinFunction (?hs ! j)
                         else Value (if j < length (rows ! (h + 1 + n))
                                        \<and> truthy (rows ! (h + 1 + n) ! j)
                                     then rows ! (h + 1 + n) ! j else Null))"
      by (intro allI impI) (rule wgood[OF n])
    show "length (?ws ! n) = length (rows ! h)
          \<and> (\<forall>j < length (rows ! h).
                ?hs ! j \<noteq> ''__proto__'' \<and> ?hs ! j \<noteq> ''rowIndex''
                \<and> ?hs ! j \<notin> set (drop (Suc j) ?hs)
                \<longrightarrow> ?ws ! n ! j
                      = (if ?hs ! j \<in> set object_prototype_methods
                            \<and> index (rows ! (h + 1 + n)) j = Undefined
                         then BuiltinFunction (?hs ! j)
                         else Value (if j < length (rows ! (h + 1 + n))
                                        \<and> truthy (rows ! (h + 1 + n) ! j)
                                     then rows ! (h + 1 + n) ! j else Null)))"
      by (rule conjI[OF wlen[OF n] g])
  qed
  have R: "\<exists>ws. serialize (body_headers (body ?G))
                 (map (\<lambda>c. Some (as_received c))
                    (body_cases (body ?G))) = Inr ws
    \<and> length ws = length rows - (h + 1)
    \<and> (\<forall>n < length rows - (h + 1).
          length (ws ! n) = length (rows ! h)
          \<and> (\<forall>j < length (rows ! h).
                body_headers (body ?G) ! j \<noteq> ''__proto__''
                \<and> body_headers (body ?G) ! j \<noteq> ''rowIndex''
                \<and> body_headers (body ?G) ! j
                    \<notin> set (drop (Suc j) (body_headers (body ?G)))
                \<longrightarrow> ws ! n ! j
                      = (if body_headers (body ?G) ! j
                              \<in> set object_prototype_methods
                            \<and> index (rows ! (h + 1 + n)) j = Undefined
                         then BuiltinFunction (body_headers (body ?G) ! j)
                         else Value (if j < length (rows ! (h + 1 + n))
                                        \<and> truthy (rows ! (h + 1 + n) ! j)
                                     then rows ! (h + 1 + n) ! j else Null))))"
    unfolding hs cs by (rule exI[where x = ?ws]) (rule conjI[OF wser conjI[OF lws B]])
  show ?thesis by (rule conjI[OF D R])
qed

theorem round_trip_witness:
  "(\<exists>vs. serialize (body_headers (body (get_cases (Inr (Some mixed_grid)))))
           (map Some (body_cases (body (get_cases (Inr (Some mixed_grid)))))) = Inr vs
     \<and> vs ! 0 ! 1 = Value (Str ''Ana Soto'')
     \<and> vs ! 0 ! 3 = Value Null
     \<and> vs ! 1 ! 1 = Value Null
     \<and> length (vs ! 1) = 6)
   \<and> (\<exists>ws. serialize (body_headers (body (get_cases (Inr (Some mixed_grid)))))
           (map (\<lambda>c. Some (as_received c))
              (body_cases (body (get_cases (Inr (Some mixed_grid)))))) = Inr ws
     \<and> ws ! 0 ! 1 = Value (Str ''Ana Soto'')
     \<and> ws ! 1 ! 1 = Value Null)"
proof -
  let ?G = "get_cases (Inr (Some mixed_grid))"
  note rt = round_trip[OF mixed_grid_header mixed_grid_plain]
  have n0: "0 < length mixed_grid - (0 + 1)" and n1: "1 < length mixed_grid - (0 + 1)"
    by (simp_all add: mixed_grid_def)
  have j1: "1 < length (mixed_grid ! 0)" and j3: "3 < length (mixed_grid ! 0)"
    by (simp_all add: mixed_grid_def)
  from rt[THEN conjunct1]
  obtain vs where ser: "serialize (body_headers (body ?G)) (map Some (body_cases (body ?G))) = Inr vs"
    and all: "\<forall>n < length mixed_grid - (0 + 1).
          length (vs ! n) = length (mixed_grid ! 0)
          \<and> (\<forall>j < length (mixed_grid ! 0).
                body_headers (body ?G) ! j \<noteq> ''__proto__''
                \<and> body_headers (body ?G) ! j \<noteq> ''rowIndex''
                \<and> body_headers (body ?G) ! j \<notin> set (drop (Suc j) (body_headers (body ?G)))
                \<longrightarrow> vs ! n ! j
                      = Value (if j < length (mixed_grid ! (0 + 1 + n))
                                  \<and> truthy (mixed_grid ! (0 + 1 + n) ! j)
                               then mixed_grid ! (0 + 1 + n) ! j else Null))
          \<and> (\<forall>j < length (mixed_grid ! 0). \<forall>k < length (mixed_grid ! 0).
                body_headers (body ?G) ! j = body_headers (body ?G) ! k
                \<longrightarrow> vs ! n ! j = vs ! n ! k)"
    by (elim exE conjE)
  note r0 = all[rule_format, OF n0, THEN conjunct2, THEN conjunct1, rule_format]
  note r1 = all[rule_format, OF n1, THEN conjunct2, THEN conjunct1, rule_format]
  have a: "vs ! 0 ! 1 = Value (Str ''Ana Soto'')"
    using r0[OF j1] unfolding mixed_grid_headers by (simp add: mixed_grid_def)
  have b: "vs ! 0 ! 3 = Value Null"
    using r0[OF j3] unfolding mixed_grid_headers by (simp add: mixed_grid_def)
  have c: "vs ! 1 ! 1 = Value Null"
    using r1[OF j1] unfolding mixed_grid_headers by (simp add: mixed_grid_def)
  have d: "length (vs ! 1) = 6"
    using all[rule_format, OF n1, THEN conjunct1] by (simp add: mixed_grid_def)
  have D: "\<exists>vs. serialize (body_headers (body ?G)) (map Some (body_cases (body ?G))) = Inr vs
     \<and> vs ! 0 ! 1 = Value (Str ''Ana Soto'') \<and> vs ! 0 ! 3 = Value Null
     \<and> vs ! 1 ! 1 = Value Null \<and> length (vs ! 1) = 6"
    by (rule exI[where x = vs]) (rule conjI[OF ser conjI[OF a conjI[OF b conjI[OF c d]]]])
  from rt[THEN conjunct2]
  obtain ws where wser: "serialize (body_headers (body ?G))
                           (map (\<lambda>c. Some (as_received c)) (body_cases (body ?G))) = Inr ws"
    and wall: "\<forall>n < length mixed_grid - (0 + 1).
          length (ws ! n) = length (mixed_grid ! 0)
          \<and> (\<forall>j < length (mixed_grid ! 0).
                body_headers (body ?G) ! j \<noteq> ''__proto__''
                \<and> body_headers (body ?G) ! j \<noteq> ''rowIndex''
                \<and> body_headers (body ?G) ! j \<notin> set (drop (Suc j) (body_headers (body ?G)))
                \<longrightarrow> ws ! n ! j
                      = (if body_headers (body ?G) ! j \<in> set object_prototype_methods
                            \<and> index (mixed_grid ! (0 + 1 + n)) j = Undefined
                         then BuiltinFunction (body_headers (body ?G) ! j)
                         else Value (if j < length (mixed_grid ! (0 + 1 + n))
                                        \<and> truthy (mixed_grid ! (0 + 1 + n) ! j)
                                     then mixed_grid ! (0 + 1 + n) ! j else Null)))"
    by (elim exE conjE)
  note w0 = wall[rule_format, OF n0, THEN conjunct2, rule_format]
  note w1 = wall[rule_format, OF n1, THEN conjunct2, rule_format]
  have e: "ws ! 0 ! 1 = Value (Str ''Ana Soto'')"
    using w0[OF j1] unfolding mixed_grid_headers
    by (simp add: mixed_grid_def object_prototype_methods_def)
  have f: "ws ! 1 ! 1 = Value Null"
    using w1[OF j1] unfolding mixed_grid_headers
    by (simp add: mixed_grid_def object_prototype_methods_def)
  have R: "\<exists>ws. serialize (body_headers (body ?G))
                  (map (\<lambda>c. Some (as_received c)) (body_cases (body ?G))) = Inr ws
     \<and> ws ! 0 ! 1 = Value (Str ''Ana Soto'') \<and> ws ! 1 ! 1 = Value Null"
    by (rule exI[where x = ws]) (rule conjI[OF wser conjI[OF e f]])
  show ?thesis by (rule conjI[OF D R])
qed

section \<open>The claims about PUT /api/cases\<close>

text \<open>
  C7 (PUT input validation) as stated does not hold: for the body
  \<open>{headers: ["a"], cases: [null]}\<close> both fields are present and truthy, but building the
  rows throws a TypeError at \<open>caso[header]\<close>; the handler answers 500 and makes no call
  to the spreadsheet service.
\<close>

theorem put_validation_counterexample:
  "field_truthy (headers null_case_body) \<and> field_truthy (cases null_case_body)
   \<and> put_cases no_failure null_case_body
       = ([], Response 500 (ErrorBody ''Error al escribir en Google Sheets.''
                (''Cannot read properties of null (reading '' @ [CHR 0x27] @ ''a''
                   @ [CHR 0x27] @ '')'')))"
  by (simp add: put_cases_def null_case_body_def values_of_def put_failure_def no_failure_def)

text \<open>
  C7, amended. When \<open>headers\<close> or \<open>cases\<close> is absent or falsy, the handler answers 400
  with a message and makes no call to the spreadsheet service. When both are truthy, the
  handler first builds the rows. If that throws, it answers 500 with the error's message
  and makes no call. Otherwise it calls \<open>clear\<close> on \<open>BD!A4:ZZ\<close>; if \<open>clear\<close> rejects
  it answers 500 with that message; if there is no row it answers 200; otherwise it calls
  \<open>update\<close> at \<open>BD!A4\<close> with the rows and answers 200 when the call resolves and 500
  with its message when it rejects. Building the rows throws when \<open>cases\<close> is not an
  array, when \<open>cases\<close> is a non-empty array and \<open>headers\<close> is not an array, and when
  \<open>headers\<close> is a non-empty array and some case is \<open>null\<close>. For arrays of objects and of
  headers it gives, for each case in order, the row of \<open>caso[header] || null\<close> over the
  headers in order; it gives no row when there is no case, and empty rows when there is no
  header.
\<close>

theorem put_validation:
  "(\<not> field_truthy (headers b) \<or> \<not> field_truthy (cases b) \<longrightarrow>
      put_cases sheets b = ([], Response 400 (MessageBody put_missing)))
   \<and> (field_truthy (headers b) \<and> field_truthy (cases b) \<longrightarrow>
        (\<forall>e. values_of (headers b) (cases b) = Inl e \<longrightarrow>
           put_cases sheets b
             = ([], Response 500 (ErrorBody ''Error al escribir en Google Sheets.'' e)))
      \<and> (\<forall>vs m. values_of (headers b) (cases b) = Inr vs \<longrightarrow>
           (sheets clear_call = Some m \<longrightarrow>
              put_cases sheets b
                = ([clear_call], Response 500 (ErrorBody ''Error al escribir en Google Sheets.'' m)))
         \<and> (sheets clear_call = None \<and> vs = [] \<longrightarrow>
              put_cases sheets b = ([clear_call], Response 200 (MessageBody put_success)))
         \<and> (sheets clear_call = None \<and> vs \<noteq> [] \<and> sheets (update_call vs) = Some m \<longrightarrow>
              put_cases sheets b
                = ([clear_call, update_call vs],
                   Response 500 (ErrorBody ''Error al escribir en Google Sheets.'' m)))
         \<and> (sheets clear_call = None \<and> vs \<noteq> [] \<and> sheets (update_call vs) = None \<longrightarrow>
              put_cases sheets b
                = ([clear_call, update_call vs], Response 200 (MessageBody put_success)))))
   \<and> ((\<forall>xs. cf \<noteq> Array xs) \<longrightarrow> values_of hf cf = Inl ''cases.map is not a function'')
   \<and> values_of hf (Array []) = Inr []
   \<and> (cs \<noteq> [] \<and> (\<forall>xs. hf \<noteq> Array xs) \<longrightarrow>
        values_of hf (Array cs) = Inl ''headers.map is not a function'')
   \<and> (hs \<noteq> [] \<and> None \<in> set cs \<longrightarrow> (\<exists>e. values_of (Array hs) (Array cs) = Inl e))
   \<and> values_of (Array hs) (Array (map Some objs))
       = Inr (map (\<lambda>obj. map (\<lambda>header. or_null (obj_get obj header)) hs) objs)
   \<and> values_of (Array []) (Array cs) = Inr (map (\<lambda>caso. []) cs)
   \<and> clear_call = Clear SPREADSHEET_ID ''BD!A4:ZZ''
   \<and> update_call vs' = Update SPREADSHEET_ID ''BD!A4'' ''USER_ENTERED'' vs'"
proof -
  have 1: "\<not> field_truthy (headers b) \<or> \<not> field_truthy (cases b) \<longrightarrow>
      put_cases sheets b = ([], Response 400 (MessageBody put_missing))"
    by (auto simp: put_cases_def)
  have 2: "field_truthy (headers b) \<and> field_truthy (cases b) \<longrightarrow>
        (\<forall>e. values_of (headers b) (cases b) = Inl e \<longrightarrow>
           put_cases sheets b
             = ([], Response 500 (ErrorBody ''Error al escribir en Google Sheets.'' e)))
      \<and> (\<forall>vs m. values_of (headers b) (cases b) = Inr vs \<longrightarrow>
           (sheets clear_call = Some m \<longrightarrow>
              put_cases sheets b
                = ([clear_call], Response 500 (ErrorBody ''Error al escribir en Google Sheets.'' m)))
         \<and> (sheets clear_call = None \<and> vs = [] \<longrightarrow>
              put_cases sheets b = ([clear_call], Response 200 (MessageBody put_success)))
         \<and> (sheets clear_call = None \<and> vs \<noteq> [] \<and> sheets (update_call vs) = Some m \<longrightarrow>
              put_cases sheets b
                = ([clear_call, update_call vs],
                   Response 500 (ErrorBody ''Error al escribir en Google Sheets.'' m)))
         \<and> (sheets clear_call = None \<and> vs \<noteq> [] \<and> sheets (update_call vs) = None \<longrightarrow>
              put_cases sheets b
                = ([clear_call, update_call vs], Response 200 (MessageBody put_success))))"
    by (simp add: put_cases_def put_failure_def)
  have 3: "(\<forall>xs. cf \<noteq> Array xs) \<longrightarrow> values_of hf cf = Inl ''cases.map is not a function''"
    by (cases cf) (simp_all add: values_of_def)
  have 4: "values_of hf (Array []) = Inr []"
    by (simp add: values_of_def)
  have 5: "cs \<noteq> [] \<and> (\<forall>xs. hf \<noteq> Array xs) \<longrightarrow>
        values_of hf (Array cs) = Inl ''headers.map is not a function''"
    by (cases hf) (simp_all add: values_of_def)
  have 6: "hs \<noteq> [] \<and> None \<in> set cs \<longrightarrow> (\<exists>e. values_of (Array hs) (Array cs) = Inl e)"
  proof
    assume a: "hs \<noteq> [] \<and> None \<in> set cs"
    then have "cs \<noteq> []" by auto
    then show "\<exists>e. values_of (Array hs) (Array cs) = Inl e"
      using serialize_null_case[of hs cs] a by (simp add: values_of_def)
  qed
  have 7: "values_of (Array hs) (Array (map Some objs))
       = Inr (map (\<lambda>obj. map (\<lambda>header. or_null (obj_get obj header)) hs) objs)"
    by (cases "objs = []") (simp_all add: values_of_def serialize_objects)
  have 8: "values_of (Array []) (Array cs) = Inr (map (\<lambda>caso. []) cs)"
    by (cases "cs = []") (simp_all add: values_of_def serialize_no_header)
  have 9: "update_call vs' = Update SPREADSHEET_ID ''BD!A4'' ''USER_ENTERED'' vs'"
    unfolding update_call_def SHEET_NAME_def dataStartRow_def by code_simp
  show ?thesis
    by (rule conjI[OF 1 conjI[OF 2 conjI[OF 3 conjI[OF 4 conjI[OF 5 conjI[OF 6 conjI[OF 7
          conjI[OF 8 conjI[OF clear_call_value 9]]]]]]]]])
qed

theorem put_validation_witness:
  "put_cases no_failure empty_body = ([], Response 400 (MessageBody put_missing))
   \<and> put_cases no_failure one_case_body
       = ([clear_call,
           update_call [[Value (Str ''1-9''), Value Null, BuiltinFunction ''constructor'']]],
          Response 200 (MessageBody put_success))
   \<and> values_of (Array [''a'']) (Scalar (Str ''x'')) = Inl ''cases.map is not a function''"
proof -
  let ?hs = "[''RUT'', ''NOMBRES'', ''constructor'']"
  let ?vs = "[[Value (Str ''1-9''), Value Null, BuiltinFunction ''constructor'']]"
  note e = put_validation[where b = empty_body and sheets = no_failure
             and hf = "Array [''a'']" and cf = "Scalar (Str ''x'')"]
  note o = put_validation[where b = one_case_body and sheets = no_failure
             and hs = ?hs and objs = "[one_case]"]
  have a: "put_cases no_failure empty_body = ([], Response 400 (MessageBody put_missing))"
    using e[THEN conjunct1] by (simp add: empty_body_def)
  have c: "values_of (Array [''a'']) (Scalar (Str ''x'')) = Inl ''cases.map is not a function''"
    using e[THEN conjunct2, THEN conjunct2, THEN conjunct1] by simp
  have rows: "map (\<lambda>obj. map (\<lambda>header. or_null (obj_get obj header)) ?hs) [one_case] = ?vs"
    by (simp add: or_null_def obj_get_def one_case_def object_prototype_methods_def)
  have v: "values_of (headers one_case_body) (cases one_case_body) = Inr ?vs"
    using o[THEN conjunct2, THEN conjunct2, THEN conjunct2, THEN conjunct2, THEN conjunct2,
        THEN conjunct2, THEN conjunct1]
    unfolding rows by (simp add: one_case_body_def)
  have t: "field_truthy (headers one_case_body) \<and> field_truthy (cases one_case_body)"
    by (simp add: one_case_body_def)
  have r: "no_failure clear_call = None \<and> ?vs \<noteq> [] \<and> no_failure (update_call ?vs) = None"
    by (simp add: no_failure_def)
  have b: "put_cases no_failure one_case_body
       = ([clear_call, update_call ?vs], Response 200 (MessageBody put_success))"
    using o[THEN conjunct2, THEN conjunct1, rule_format, OF t, THEN conjunct2, rule_format, OF v,
        THEN conjunct2, THEN conjunct2, THEN conjunct2, rule_format, OF r] .
  show ?thesis by (rule conjI[OF a conjI[OF b c]])
qed



section \<open>The claims about POST /api/location\<close>

text \<open>
  C8 (location input validation). When \<open>address\<close> is missing or falsy, \<open>location\<close> is
  missing, or \<open>location.lat\<close> or \<open>location.lon\<close> is missing or falsy, the handler
  answers 400 and makes no call to the spreadsheet service.
\<close>

theorem location_validation:
  assumes "\<not> truthy (address b) \<or> location b = None
           \<or> (\<exists>loc. location b = Some loc \<and> (\<not> truthy (lat loc) \<or> \<not> truthy (lon loc)))"
  shows "post_location sheets now b = ([], location_incomplete)
         \<and> status location_incomplete = 400"
  using assms by (auto simp: post_location_def location_incomplete_def split: option.splits)

theorem location_validation_witness:
  "post_location no_failure ''2024-05-01T12:00:00.000Z'' missing_lat_body
     = ([], location_incomplete)"
proof -
  have "\<exists>loc. location missing_lat_body = Some loc
            \<and> (\<not> truthy (lat loc) \<or> \<not> truthy (lon loc))"
    by (simp add: missing_lat_body_def)
  then show ?thesis
    using location_validation[of missing_lat_body no_failure "''2024-05-01T12:00:00.000Z''"]
    by blast
qed

text \<open>
  C6 (location append output) as stated does not hold: for the body
  \<open>{address: "123 Main St, City", location: {lat: 1.0, lon: 2.0}}\<close> the row appended is
  the one claimed and the status is 200, but the message does not start with
  \<open>123 Main St\<close>; it starts with the fixed text that precedes the quoted segment.
\<close>

theorem location_append_counterexample:
  "fst (post_location no_failure ''2024-05-01T12:00:00.000Z'' spec_example_body)
     = [append_call [[Str ''2024-05-01T12:00:00.000Z'', Str ''123 Main St, City'', Num 1, Num 2,
                      Str ''N/A'']]]
   \<and> status (snd (post_location no_failure ''2024-05-01T12:00:00.000Z'' spec_example_body)) = 200
   \<and> take (length ''123 Main St'')
        (message (body (snd (post_location no_failure ''2024-05-01T12:00:00.000Z''
                              spec_example_body))))
      \<noteq> ''123 Main St''"
  by code_simp

text \<open>
  C6, amended. When \<open>address\<close>, \<open>location.lat\<close> and \<open>location.lon\<close> are truthy, the
  handler makes exactly one call, an append to \<open>Ubicaciones!A:E\<close> of one row of five
  fields: the timestamp taken at the time of the request, the address, the latitude, the
  longitude, and \<open>caseId\<close>, or \<open>'N/A'\<close> when \<open>caseId\<close> is absent or falsy. When the
  append resolves and the address is a string, the response is 200 and its message is the
  first comma-delimited segment of the address, in double quotes, after a fixed prefix and
  before the fixed suffix \<open>guardada correctamente.\<close>
\<close>

theorem location_append:
  assumes "truthy (address b)" and "location b = Some loc"
    and "truthy (lat loc)" and "truthy (lon loc)"
  shows "fst (post_location sheets now b)
       = [Append SPREADSHEET_ID ''Ubicaciones!A:E'' ''USER_ENTERED''
            [[Str now, address b, lat loc, lon loc,
              if truthy (caseId b) then caseId b else Str ''N/A'']]]
    \<and> (sheets (Append SPREADSHEET_ID ''Ubicaciones!A:E'' ''USER_ENTERED''
            [[Str now, address b, lat loc, lon loc,
              if truthy (caseId b) then caseId b else Str ''N/A'']]) = None
         \<and> address b = Str a \<longrightarrow>
         snd (post_location sheets now b)
           = Response 200 (MessageBody
               (''Ubicaci'' @ [CHR 0xF3] @ ''n para '' @ [CHR 0x22]
                 @ takeWhile (\<lambda>c. c \<noteq> CHR '','') a
                 @ [CHR 0x22] @ '' guardada correctamente.'')))"
proof -
  let ?vs = "[[Str now, address b, lat loc, lon loc,
               if truthy (caseId b) then caseId b else Str ''N/A'']]"
  have ac: "append_call vs = Append SPREADSHEET_ID ''Ubicaciones!A:E'' ''USER_ENTERED'' vs" for vs
    by (simp add: append_call_def)
  have 1: "fst (post_location sheets now b) = [append_call ?vs]"
    using assms unfolding post_location_def Let_def
    by (simp add: js_or_def split: option.splits jsval.splits)
  have 2: "snd (post_location sheets now b) = Response 200 (MessageBody (location_saved a))"
    if "sheets (append_call ?vs) = None" "address b = Str a"
    using assms that unfolding post_location_def Let_def by (simp add: js_or_def)
  have 3: "location_saved a = ''Ubicaci'' @ [CHR 0xF3] @ ''n para '' @ [CHR 0x22]
                 @ takeWhile (\<lambda>c. c \<noteq> CHR '','') a
                 @ [CHR 0x22] @ '' guardada correctamente.''"
    unfolding location_saved_def split_first ..
  from 1 2 show ?thesis unfolding ac 3 by blast
qed

theorem location_append_witness:
  "post_location no_failure ''2024-05-01T12:00:00.000Z'' spec_example_body
   = ([Append SPREADSHEET_ID ''Ubicaciones!A:E'' ''USER_ENTERED''
         [[Str ''2024-05-01T12:00:00.000Z'', Str ''123 Main St, City'', Num 1, Num 2,
           Str ''N/A'']]],
      Response 200 (MessageBody
        (''Ubicaci'' @ [CHR 0xF3] @ ''n para '' @ [CHR 0x22] @ ''123 Main St''
           @ [CHR 0x22] @ '' guardada correctamente.'')))"
proof -
  have a: "truthy (address spec_example_body)"
    and l: "location spec_example_body = Some \<lparr>lat = Num 1, lon = Num 2\<rparr>"
    and c: "caseId spec_example_body = Undefined"
    and s: "address spec_example_body = Str ''123 Main St, City''"
    by (simp_all add: spec_example_body_def)
  have t: "truthy (lat \<lparr>lat = Num 1, lon = Num 2\<rparr>)" "truthy (lon \<lparr>lat = Num 1, lon = Num 2\<rparr>)"
    by simp_all
  from location_append[OF a l t, of no_failure "''2024-05-01T12:00:00.000Z''" "''123 Main St, City''"]
  show ?thesis by (simp add: c s no_failure_def prod_eq_iff)
qed

end
